theory Spec2Isabelle
  imports Complex_Main
begin

section \<open>Scores: Python floats\<close>

text \<open>
  Similarity scores and thresholds are Python/numpy floats. They are modelled as real
  numbers extended by the one non-number the routing code can produce, NaN: numpy
  divides 0 by 0 to NaN (with a warning, no exception), every arithmetic operation on a
  NaN gives a NaN, and every ordering comparison with a NaN is false. Rounding and
  overflow are not modelled.
\<close>

datatype pyfloat = Fl real | NaN

fun fl_lt :: "pyfloat \<Rightarrow> pyfloat \<Rightarrow> bool" where
  "fl_lt (Fl a) (Fl b) = (a < b)"
| "fl_lt _ _ = False"

fun fl_add :: "pyfloat \<Rightarrow> pyfloat \<Rightarrow> pyfloat" where
  "fl_add (Fl a) (Fl b) = Fl (a + b)"
| "fl_add _ _ = NaN"

fun fl_div :: "pyfloat \<Rightarrow> real \<Rightarrow> pyfloat" where
  "fl_div (Fl a) n = Fl (a / n)"
| "fl_div NaN n = NaN"

text \<open>\<open>np.mean\<close> of a list of floats; of the empty list it is NaN (numpy warns).\<close>

definition np_mean :: "pyfloat list \<Rightarrow> pyfloat" where
  "np_mean xs = (if xs = [] then NaN else fl_div (foldl fl_add (Fl 0) xs) (real (length xs)))"

section \<open>Errors\<close>

text \<open>
  \<open>EmbeddingError\<close> stands for any exception raised by the embedding model,
  \<open>ValueError\<close> for the one \<open>np.dot\<close>, \<open>max\<close> and
  \<open>set_active_adapter\<close> raise, \<open>AttributeError\<close> for a failed attribute lookup.
\<close>

datatype error = EmbeddingError | ValueError | AttributeError

section \<open>Embeddings (src/utils/embeddings.py)\<close>

type_synonym vec = "real list"

definition np_dot :: "vec \<Rightarrow> vec \<Rightarrow> real" where
  "np_dot v1 v2 = sum_list (map2 (*) v1 v2)"

definition linalg_norm :: "vec \<Rightarrow> real" where
  "linalg_norm v = sqrt (sum_list (map (\<lambda>x. x * x) v))"

text \<open>
  \<open>calculate_cosine_similarity\<close>: \<open>np.dot(v1, v2) / (norm(v1) * norm(v2))\<close>, with no
  guard on the denominator. \<open>np.dot\<close> raises on vectors of different lengths. Where the
  denominator is 0 the dot product is 0 as well (lemma \<open>np_dot_zero_norm\<close> below), so
  the quotient is 0/0, a NaN.
\<close>

definition calculate_cosine_similarity :: "vec \<Rightarrow> vec \<Rightarrow> error + pyfloat" where
  "calculate_cosine_similarity vector1 vector2 =
     (if length vector1 \<noteq> length vector2 then Inl ValueError
      else let d = linalg_norm vector1 * linalg_norm vector2
           in if d = 0 then Inr NaN else Inr (Fl (np_dot vector1 vector2 / d)))"

text \<open>
  The embedding model is external: \<open>generate_embedding\<close> is a parameter of the
  functions below, a function from a text to its vector or to the error it raises.
\<close>

fun batch_generate_embeddings :: "(string \<Rightarrow> error + vec) \<Rightarrow> string list \<Rightarrow> error + vec list" where
  "batch_generate_embeddings generate_embedding [] = Inr []"
| "batch_generate_embeddings generate_embedding (t # ts) =
     (case generate_embedding t of
        Inl e \<Rightarrow> Inl e
      | Inr v \<Rightarrow> (case batch_generate_embeddings generate_embedding ts of
                   Inl e \<Rightarrow> Inl e
                 | Inr vs \<Rightarrow> Inr (v # vs)))"

section \<open>Dictionaries\<close>

text \<open>
  A Python dict keeps its keys in insertion order, and assigning to a key it already
  holds keeps that key's place: an association list with \<open>d[k] = v\<close> as below.
\<close>

fun dict_set :: "'k \<Rightarrow> 'v \<Rightarrow> ('k \<times> 'v) list \<Rightarrow> ('k \<times> 'v) list" where
  "dict_set k v [] = [(k, v)]"
| "dict_set k v (p # d) = (if fst p = k then (k, v) # d else p # dict_set k v d)"

section \<open>Routes and the router (src/routing/route.py, src/routing/router.py)\<close>

text \<open>
  \<open>AdapterRoute.__post_init__\<close> only checks that the name is a string and the
  utterances a list, which the types of the record say already; it accepts an empty list.
\<close>

record AdapterRoute =
  adapter_name :: string
  training_utterances :: "string list"

type_synonym similarity_map = "(string \<times> pyfloat) list"

record semantic_router =
  base_threshold :: real
  route_embeddings :: "(string \<times> vec list) list"
  historical_scores :: "pyfloat list"

definition default_adapter_name :: string where
  "default_adapter_name = ''base''"

definition score_window :: nat where
  "score_window = 10"

text \<open>\<open>SemanticRouter.__init__\<close>, from the base similarity threshold.\<close>

definition SemanticRouter :: "real \<Rightarrow> semantic_router" where
  "SemanticRouter similarity_threshold =
     \<lparr>base_threshold = similarity_threshold, route_embeddings = [], historical_scores = []\<rparr>"

definition add_route :: "(string \<Rightarrow> error + vec) \<Rightarrow> AdapterRoute \<Rightarrow> semantic_router \<Rightarrow> error + semantic_router" where
  "add_route generate_embedding route st =
     (if training_utterances route \<noteq> [] then
        (case batch_generate_embeddings generate_embedding (training_utterances route) of
           Inl e \<Rightarrow> Inl e
         | Inr embs \<Rightarrow>
             Inr (st\<lparr>route_embeddings := dict_set (adapter_name route) embs (route_embeddings st)\<rparr>))
      else Inr st)"

text \<open>
  \<open>add_routes\<close>: the loop stops at the first route that raises; the routes before it
  stay registered. The result is the error raised, if any, and the router as it is left.
\<close>

fun add_routes :: "(string \<Rightarrow> error + vec) \<Rightarrow> AdapterRoute list \<Rightarrow> semantic_router \<Rightarrow> error option \<times> semantic_router" where
  "add_routes generate_embedding [] st = (None, st)"
| "add_routes generate_embedding (route # routes) st =
     (case add_route generate_embedding route st of
        Inl e \<Rightarrow> (Some e, st)
      | Inr st' \<Rightarrow> add_routes generate_embedding routes st')"

text \<open>
  The order of registration, for a list of routes given to \<open>add_routes\<close>: a route
  registers its name when it has utterances, and the first registration of a name is
  the position of the first route of the list that registers it (the length of the
  list when none does).
\<close>

definition registers :: "AdapterRoute \<Rightarrow> string \<Rightarrow> bool" where
  "registers route name = (adapter_name route = name \<and> training_utterances route \<noteq> [])"

definition first_registration :: "AdapterRoute list \<Rightarrow> string \<Rightarrow> nat" where
  "first_registration routes name = length (takeWhile (\<lambda>r. \<not> registers r name) routes)"

text \<open>The list comprehension of \<open>calculate_similarities\<close>: one cosine per reference.\<close>

fun utterance_similarities :: "vec \<Rightarrow> vec list \<Rightarrow> error + pyfloat list" where
  "utterance_similarities query_embedding [] = Inr []"
| "utterance_similarities query_embedding (emb # embs) =
     (case calculate_cosine_similarity query_embedding emb of
        Inl e \<Rightarrow> Inl e
      | Inr s \<Rightarrow> (case utterance_similarities query_embedding embs of
                   Inl e \<Rightarrow> Inl e
                 | Inr ss \<Rightarrow> Inr (s # ss)))"

text \<open>The loop of \<open>calculate_similarities\<close> over the registry, in its order.\<close>

fun similarities_loop :: "vec \<Rightarrow> (string \<times> vec list) list \<Rightarrow> similarity_map \<Rightarrow> error + similarity_map" where
  "similarities_loop query_embedding [] similarities = Inr similarities"
| "similarities_loop query_embedding ((name, embeddings) # rest) similarities =
     (if embeddings = [] then similarities_loop query_embedding rest similarities
      else (case utterance_similarities query_embedding embeddings of
              Inl e \<Rightarrow> Inl e
            | Inr us \<Rightarrow>
                similarities_loop query_embedding rest
                  (dict_set name (np_mean us) similarities)))"

definition calculate_similarities :: "(string \<Rightarrow> error + vec) \<Rightarrow> semantic_router \<Rightarrow> string \<Rightarrow> error + similarity_map" where
  "calculate_similarities generate_embedding st query =
     (case generate_embedding query of
        Inl e \<Rightarrow> Inl e
      | Inr query_embedding \<Rightarrow> similarities_loop query_embedding (route_embeddings st) [])"

text \<open>
  \<open>calculate_dynamic_threshold\<close>: the threshold and the router with its history
  updated. \<open>pop(0)\<close> of the history, which is not empty after the append, is \<open>tl\<close>.
\<close>

definition calculate_dynamic_threshold :: "semantic_router \<Rightarrow> similarity_map \<Rightarrow> pyfloat \<times> semantic_router" where
  "calculate_dynamic_threshold st similarities =
     (if similarities = [] then (Fl (base_threshold st), st)
      else let current_mean = np_mean (map snd similarities);
               appended = historical_scores st @ [current_mean];
               history = (if length appended > score_window then tl appended else appended);
               historical_mean = np_mean history
           in (fl_div (fl_add historical_mean (Fl (base_threshold st))) 2,
               st\<lparr>historical_scores := history\<rparr>))"

text \<open>
  Python's \<open>max(items, key=score)\<close>: it keeps the first item and replaces it by a later
  one only when that one's key is greater (\<open>>\<close>), so the first of several equal maxima
  wins; of an empty sequence it raises ValueError.
\<close>

fun max_loop :: "string \<times> pyfloat \<Rightarrow> similarity_map \<Rightarrow> string \<times> pyfloat" where
  "max_loop best [] = best"
| "max_loop best (x # xs) = max_loop (if fl_lt (snd best) (snd x) then x else best) xs"

definition py_max :: "similarity_map \<Rightarrow> error + string \<times> pyfloat" where
  "py_max items = (case items of [] \<Rightarrow> Inl ValueError | x # xs \<Rightarrow> Inr (max_loop x xs))"

definition route_query_with_scores ::
  "(string \<Rightarrow> error + vec) \<Rightarrow> semantic_router \<Rightarrow> string \<Rightarrow> error + (string \<times> similarity_map) \<times> semantic_router" where
  "route_query_with_scores generate_embedding st query =
     (case calculate_similarities generate_embedding st query of
        Inl e \<Rightarrow> Inl e
      | Inr similarities \<Rightarrow>
          if similarities = [] then
            Inr ((default_adapter_name, dict_set default_adapter_name (Fl 0) similarities), st)
          else
            (case calculate_dynamic_threshold st similarities of
               (dynamic_threshold, st') \<Rightarrow>
                 (case py_max similarities of
                    Inl e \<Rightarrow> Inl e
                  | Inr (best_adapter, best_score) \<Rightarrow>
                      let similarities' = dict_set default_adapter_name (Fl 0) similarities
                      in if fl_lt best_score dynamic_threshold
                         then Inr ((default_adapter_name, similarities'), st')
                         else Inr ((best_adapter, similarities'), st'))))"

text \<open>
  The router's operations, run one after the other on one router. An operation that
  raises leaves the router as it was: \<open>add_route\<close> assigns only after the embeddings
  are there, and \<open>route_query_with_scores\<close> can only fail inside
  \<open>calculate_similarities\<close>, before the history is touched (lemma
  \<open>route_query_with_scores_error\<close>).
\<close>

datatype router_op =
    Add_route AdapterRoute
  | Route_query string
  | Dynamic_threshold similarity_map

fun apply_op :: "(string \<Rightarrow> error + vec) \<Rightarrow> semantic_router \<Rightarrow> router_op \<Rightarrow> semantic_router" where
  "apply_op generate_embedding st (Add_route route) =
     (case add_route generate_embedding route st of Inl e \<Rightarrow> st | Inr st' \<Rightarrow> st')"
| "apply_op generate_embedding st (Route_query query) =
     (case route_query_with_scores generate_embedding st query of Inl e \<Rightarrow> st | Inr (r, st') \<Rightarrow> st')"
| "apply_op generate_embedding st (Dynamic_threshold similarities) =
     snd (calculate_dynamic_threshold st similarities)"

definition run_ops :: "(string \<Rightarrow> error + vec) \<Rightarrow> router_op list \<Rightarrow> semantic_router \<Rightarrow> semantic_router" where
  "run_ops generate_embedding ops st = foldl (apply_op generate_embedding) st ops"

text \<open>
  What \<open>add_route\<close> keeps true of the registry: one entry per name, in the order of
  first registration, and no entry without reference embeddings.
\<close>

definition registry_ok :: "(string \<times> vec list) list \<Rightarrow> bool" where
  "registry_ok reg = (distinct (map fst reg) \<and> list_all (\<lambda>p. snd p \<noteq> []) reg)"

section \<open>The threshold estimator in the spec's words\<close>

text \<open>
  Modelled on the spec's words, for comparison with \<open>calculate_dynamic_threshold\<close>: the
  mean pushed on the history is that of the map's scores other than the fallback's.
\<close>

definition next_threshold_spec :: "semantic_router \<Rightarrow> similarity_map \<Rightarrow> pyfloat \<times> semantic_router" where
  "next_threshold_spec st similarities =
     (if similarities = [] then (Fl (base_threshold st), st)
      else let current_mean = np_mean (map snd (filter (\<lambda>p. fst p \<noteq> ''base'') similarities));
               appended = historical_scores st @ [current_mean];
               history = (if length appended > 10 then tl appended else appended)
           in (fl_div (fl_add (np_mean history) (Fl (base_threshold st))) 2,
               st\<lparr>historical_scores := history\<rparr>))"

section \<open>The system (src/main.py, src/core/adapter_manager.py)\<close>

text \<open>
  Of \<open>MixtureOfAdapters\<close> and its \<open>AdapterManager\<close>: the verbose flag, the router, the
  names of the loaded adapters (the keys of \<open>loaded_adapters\<close>), the adapter the PEFT
  model has active (what \<open>peft_model.set_adapter\<close> sets) and the field
  \<open>current_adapter\<close>.
\<close>

record system =
  verbose :: bool
  router :: semantic_router
  loaded_adapters :: "string list"
  active_adapter :: "string option"
  current_adapter :: "string option"

text \<open>
  \<open>set_active_adapter\<close>. A loaded adapter has a PEFT model (both are set together when
  an adapter is loaded), so \<open>set_adapter\<close> is called on an object.
\<close>

definition set_active_adapter :: "string \<Rightarrow> system \<Rightarrow> error + system" where
  "set_active_adapter name s =
     (if name \<noteq> ''base'' then
        (if name \<notin> set (loaded_adapters s) then Inl ValueError
         else Inr (s\<lparr>active_adapter := Some name\<rparr>))
      else Inr s)"

text \<open>
  Everything an \<open>AdapterManager\<close> object has: the three fields \<open>__init__\<close> sets and the
  methods of the class (it has no base class and no \<open>__getattr__\<close>).
\<close>

definition AdapterManager_attributes :: "string list" where
  "AdapterManager_attributes =
     [''base_model'', ''peft_model'', ''loaded_adapters'', ''__init__'',
      ''load_adapter_from_hub'', ''load_adapter_from_directory'',
      ''load_adapters_from_directory'', ''load_adapters_from_hub'',
      ''set_active_adapter'', ''get_model'']"

text \<open>
  \<open>self.adapter_manager.disable_all_adapters()\<close>: the attribute lookup comes first and
  raises AttributeError where the object has no such attribute. The source gives the
  method no body, so the other branch has nothing to do.
\<close>

definition disable_all_adapters :: "system \<Rightarrow> error + system" where
  "disable_all_adapters s =
     (if ''disable_all_adapters'' \<in> set AdapterManager_attributes then Inr s
      else Inl AttributeError)"

text \<open>
  \<open>_log_routing_decision\<close>: what it writes to the log is not modelled, what it does to
  the router is. It raises nothing (\<open>np.mean\<close> of no score is a NaN, which formats).
\<close>

definition log_routing_decision :: "system \<Rightarrow> similarity_map \<Rightarrow> system" where
  "log_routing_decision s similarities =
     s\<lparr>router := snd (calculate_dynamic_threshold (router s) similarities)\<rparr>"

text \<open>
  \<open>generate_response\<close> up to the line that starts the generation: the adapter it
  activated, or the error raised, and the system as it is left.
\<close>

definition begin_response :: "(string \<Rightarrow> error + vec) \<Rightarrow> system \<Rightarrow> string \<Rightarrow> (error + string) \<times> system" where
  "begin_response generate_embedding s query =
     (case route_query_with_scores generate_embedding (router s) query of
        Inl e \<Rightarrow> (Inl e, s)
      | Inr ((name, similarities), r') \<Rightarrow>
          let s1 = s\<lparr>router := r'\<rparr>;
              s2 = (if verbose s1 then log_routing_decision s1 similarities else s1)
          in (case (if name = ''base'' then disable_all_adapters s2
                    else set_active_adapter name s2) of
                Inl e \<Rightarrow> (Inl e, s2)
              | Inr s3 \<Rightarrow> (Inr name, s3\<lparr>current_adapter := Some name\<rparr>)))"

text \<open>
  The chat generator is external: \<open>chat\<close> gives the chunks generated under the active
  adapter for the messages (it catches its own exceptions and yields them as text).
\<close>

type_synonym message = "string \<times> string"

definition generate_response ::
  "(string \<Rightarrow> error + vec) \<Rightarrow> (string option \<Rightarrow> message list \<Rightarrow> bool \<Rightarrow> string list) \<Rightarrow>
   system \<Rightarrow> string \<Rightarrow> message list \<Rightarrow> bool \<Rightarrow> (error + string list) \<times> system" where
  "generate_response generate_embedding chat s query messages stream =
     (case begin_response generate_embedding s query of
        (Inl e, s') \<Rightarrow> (Inl e, s')
      | (Inr name, s') \<Rightarrow> (Inr (chat (active_adapter s') messages stream), s'))"

section \<open>The API server (src/api/server.py)\<close>

text \<open>A message is its role and its content. \<open>get_current_adapter() or "base"\<close> is the label.\<close>

record GenerateRequest =
  messages :: "message list"
  stream :: bool

datatype http_result =
    GenerateResponse string string
  | EventSourceResponse "(string \<times> string) list"
  | HTTPException nat

definition last_user_content :: "message list \<Rightarrow> string" where
  "last_user_content msgs =
     (case filter (\<lambda>m. fst m = ''user'') (rev msgs) of [] \<Rightarrow> [] | m # ms \<Rightarrow> snd m)"

definition model_label :: "system \<Rightarrow> string" where
  "model_label s = (case current_adapter s of None \<Rightarrow> ''base'' | Some a \<Rightarrow> if a = [] then ''base'' else a)"

text \<open>\<open>_generate_stream\<close>: an exception becomes one last chunk that carries the error.\<close>

definition generate_stream ::
  "(string \<Rightarrow> error + vec) \<Rightarrow> (string option \<Rightarrow> message list \<Rightarrow> bool \<Rightarrow> string list) \<Rightarrow>
   system \<Rightarrow> string \<Rightarrow> message list \<Rightarrow> (string \<times> string) list \<times> system" where
  "generate_stream generate_embedding chat s query msgs =
     (case generate_response generate_embedding chat s query msgs True of
        (Inl e, s') \<Rightarrow> ([(''Error'', model_label s')], s')
      | (Inr chunks, s') \<Rightarrow>
          (map (\<lambda>c. (c, model_label s')) (filter (\<lambda>c. c \<noteq> []) chunks), s'))"

text \<open>The endpoint \<open>/generate\<close>: an exception of the complete response is an HTTP 500.\<close>

definition generate ::
  "(string \<Rightarrow> error + vec) \<Rightarrow> (string option \<Rightarrow> message list \<Rightarrow> bool \<Rightarrow> string list) \<Rightarrow>
   system \<Rightarrow> GenerateRequest \<Rightarrow> http_result \<times> system" where
  "generate generate_embedding chat s request =
     (let query = last_user_content (messages request) in
      if stream request then
        (case generate_stream generate_embedding chat s query (messages request) of
           (chunks, s') \<Rightarrow> (EventSourceResponse chunks, s'))
      else
        (case generate_response generate_embedding chat s query (messages request) False of
           (Inl e, s') \<Rightarrow> (HTTPException 500, s')
         | (Inr chunks, s') \<Rightarrow> (GenerateResponse (concat chunks) (model_label s'), s')))"

section \<open>Requests in flight together\<close>

text \<open>
  The server runs every request as a task of one event loop. A streamed response
  suspends at \<open>await asyncio.sleep(0)\<close> before each chunk (``allow other tasks to run'',
  src/core/chat_generator.py), so the tasks interleave there: a request runs
  \<open>generate_response\<close> up to the start of its generation in one piece, then yields
  chunk by chunk while other requests take their turns, then ends. A chunk comes out
  of the backend under the adapter that is active when it is produced.
\<close>

datatype phase = Pending | Generating string | Done

record server_state =
  sys :: system
  phases :: "phase list"
  chunk_log :: "(nat \<times> string option) list"

datatype action = Start nat | Chunk nat | Finish nat

fun step :: "(string \<Rightarrow> error + vec) \<Rightarrow> string list \<Rightarrow> server_state \<Rightarrow> action \<Rightarrow> server_state" where
  "step generate_embedding queries st (Start i) =
     (if i < length (phases st) \<and> i < length queries \<and> phases st ! i = Pending then
        (case begin_response generate_embedding (sys st) (queries ! i) of
           (Inl e, s') \<Rightarrow> st\<lparr>sys := s', phases := (phases st)[i := Done]\<rparr>
         | (Inr name, s') \<Rightarrow> st\<lparr>sys := s', phases := (phases st)[i := Generating name]\<rparr>)
      else st)"
| "step generate_embedding queries st (Chunk i) =
     (if i < length (phases st) then
        (case phases st ! i of
           Generating name \<Rightarrow> st\<lparr>chunk_log := chunk_log st @ [(i, active_adapter (sys st))]\<rparr>
         | _ \<Rightarrow> st)
      else st)"
| "step generate_embedding queries st (Finish i) =
     (if i < length (phases st) then
        (case phases st ! i of
           Generating name \<Rightarrow> st\<lparr>phases := (phases st)[i := Done]\<rparr>
         | _ \<Rightarrow> st)
      else st)"

definition run_schedule :: "(string \<Rightarrow> error + vec) \<Rightarrow> string list \<Rightarrow> action list \<Rightarrow> server_state \<Rightarrow> server_state" where
  "run_schedule generate_embedding queries schedule st =
     foldl (step generate_embedding queries) st schedule"

definition initial_server :: "system \<Rightarrow> nat \<Rightarrow> server_state" where
  "initial_server s n = \<lparr>sys = s, phases = replicate n Pending, chunk_log = []\<rparr>"

section \<open>Concrete inputs\<close>

text \<open>
  An embedding model of two dimensions for the examples: three texts it can embed (one
  of them to the zero vector), and an error on every other text.
\<close>

definition demo_embedding :: "string \<Rightarrow> error + vec" where
  "demo_embedding t =
     (if t = ''x'' then Inr [1, 0]
      else if t = ''y'' then Inr [0, 1]
      else if t = ''zero'' then Inr [0, 0]
      else Inl EmbeddingError)"

definition demo_chat :: "string option \<Rightarrow> message list \<Rightarrow> bool \<Rightarrow> string list" where
  "demo_chat adapter msgs streaming = [''ok'']"

definition demo_system :: "bool \<Rightarrow> (string \<times> vec list) list \<Rightarrow> system" where
  "demo_system v reg =
     \<lparr>verbose = v,
      router = (SemanticRouter (1/2))\<lparr>route_embeddings := reg\<rparr>,
      loaded_adapters = map fst reg,
      active_adapter = None,
      current_adapter = None\<rparr>"

section \<open>Basic facts\<close>

lemma foldl_fl_add_Fl: "foldl fl_add (Fl a) (map Fl xs) = Fl (a + sum_list xs)"
  by (induction xs arbitrary: a) (auto simp: algebra_simps)

lemma np_mean_Fl: "xs \<noteq> [] \<Longrightarrow> np_mean (map Fl xs) = Fl (sum_list xs / real (length xs))"
  by (simp add: np_mean_def foldl_fl_add_Fl)

lemma map_snd_apsnd: "map snd (map (apsnd f) rs) = map f (map snd rs)"
  by (induction rs) auto

lemma linalg_norm_demo [simp]:
  "linalg_norm [1, 0] = 1" "linalg_norm [0, 1] = 1" "linalg_norm [0, 0] = 0"
  by (simp_all add: linalg_norm_def)

section \<open>The dynamic threshold\<close>

lemma calculate_dynamic_threshold_length:
  "length (historical_scores st) \<le> 10 \<Longrightarrow>
   length (historical_scores (snd (calculate_dynamic_threshold st m))) \<le> 10"
  by (auto simp: calculate_dynamic_threshold_def score_window_def Let_def)

lemma calculate_dynamic_threshold_nonempty:
  assumes "m \<noteq> []"
  shows "calculate_dynamic_threshold st m =
     (let h = (if 10 \<le> length (historical_scores st)
               then tl (historical_scores st) @ [np_mean (map snd m)]
               else historical_scores st @ [np_mean (map snd m)])
      in (fl_div (fl_add (np_mean h) (Fl (base_threshold st))) 2, st\<lparr>historical_scores := h\<rparr>))"
proof (cases "historical_scores st")
  case Nil
  then show ?thesis using assms
    by (simp add: calculate_dynamic_threshold_def score_window_def Let_def)
next
  case (Cons x xs)
  then show ?thesis using assms
    by (simp add: calculate_dynamic_threshold_def score_window_def Let_def)
qed

text \<open>
  Claim C3, as the spec states it, has the estimator push the mean of the scores other
  than the fallback's. The code takes the mean of every score of the map it is given.
  \<open>_log_routing_decision\<close> gives it the map that \<open>route_query_with_scores\<close> returned,
  with the entry of \<open>"base"\<close> at 0.0: on \<open>{a: 1.0, base: 0.0}\<close>, threshold 0.5 and an
  empty history the code pushes 0.5 and returns 0.5, where the spec's words give a push
  of 1.0 and the threshold 0.75.
\<close>

theorem threshold_counts_fallback_entry:
  "calculate_dynamic_threshold (SemanticRouter (1/2)) [(''a'', Fl 1), (''base'', Fl 0)]
     = (Fl (1/2), (SemanticRouter (1/2))\<lparr>historical_scores := [Fl (1/2)]\<rparr>) \<and>
   next_threshold_spec (SemanticRouter (1/2)) [(''a'', Fl 1), (''base'', Fl 0)]
     = (Fl (3/4), (SemanticRouter (1/2))\<lparr>historical_scores := [Fl 1]\<rparr>)"
  by (simp add: calculate_dynamic_threshold_def next_threshold_spec_def SemanticRouter_def
      np_mean_def score_window_def Let_def)

text \<open>
  Claim C3, amended: on an empty map one threshold computation returns the base
  threshold and leaves the router as it is; on a non-empty map it appends the mean of
  all the scores of the map (the fallback's included, when the map has one) to the
  history, drops the oldest entry when the history held 10 already, and returns the
  mean of that new history and the base threshold, halved. Scores and history are
  numbers here.
\<close>

theorem calculate_dynamic_threshold_mean_of_all:
  "calculate_dynamic_threshold st [] = (Fl (base_threshold st), st) \<and>
   (scores \<noteq> [] \<longrightarrow>
     calculate_dynamic_threshold (st\<lparr>historical_scores := map Fl hs\<rparr>) (map (apsnd Fl) scores) =
      (let m = sum_list (map snd scores) / real (length scores);
           hs' = (if 10 \<le> length hs then tl hs @ [m] else hs @ [m])
       in (Fl ((sum_list hs' / real (length hs') + base_threshold st) / 2),
           st\<lparr>historical_scores := map Fl hs'\<rparr>)))"
proof -
  have e: "calculate_dynamic_threshold st [] = (Fl (base_threshold st), st)"
    by (simp add: calculate_dynamic_threshold_def)
  have n: "calculate_dynamic_threshold (st\<lparr>historical_scores := map Fl hs\<rparr>) (map (apsnd Fl) scores) =
      (let m = sum_list (map snd scores) / real (length scores);
           hs' = (if 10 \<le> length hs then tl hs @ [m] else hs @ [m])
       in (Fl ((sum_list hs' / real (length hs') + base_threshold st) / 2),
           st\<lparr>historical_scores := map Fl hs'\<rparr>))" if ne: "scores \<noteq> []"
  proof -
    define m where "m = sum_list (map snd scores) / real (length scores)"
    define hs' where "hs' = (if 10 \<le> length hs then tl hs @ [m] else hs @ [m])"
    have cm: "np_mean (map snd (map (apsnd Fl) scores)) = Fl m"
      unfolding map_snd_apsnd m_def using ne np_mean_Fl [of "map snd scores"] by simp
    have h: "(if 10 \<le> length (map Fl hs) then tl (map Fl hs) @ [Fl m] else map Fl hs @ [Fl m]) = map Fl hs'"
      by (simp add: hs'_def map_tl)
    have hne: "hs' \<noteq> []" by (simp add: hs'_def)
    have hm: "np_mean (map Fl hs') = Fl (sum_list hs' / real (length hs'))"
      using hne by (rule np_mean_Fl)
    have "calculate_dynamic_threshold (st\<lparr>historical_scores := map Fl hs\<rparr>) (map (apsnd Fl) scores) =
        (fl_div (fl_add (np_mean (map Fl hs')) (Fl (base_threshold st))) 2,
         st\<lparr>historical_scores := map Fl hs'\<rparr>)"
      using ne cm
      by (simp add: calculate_dynamic_threshold_nonempty Let_def h [symmetric] del: map_append map_map)
    also have "\<dots> = (Fl ((sum_list hs' / real (length hs') + base_threshold st) / 2),
         st\<lparr>historical_scores := map Fl hs'\<rparr>)"
      by (simp add: hm)
    finally show ?thesis by (simp add: Let_def m_def hs'_def)
  qed
  from e n show ?thesis by blast
qed

theorem calculate_dynamic_threshold_mean_of_all_witness:
  "calculate_dynamic_threshold (SemanticRouter (1/2)) [] = (Fl (1/2), SemanticRouter (1/2)) \<and>
   calculate_dynamic_threshold ((SemanticRouter (1/2))\<lparr>historical_scores := map Fl [1]\<rparr>)
       (map (apsnd Fl) [(''a'', 1), (''base'', 0)])
     = (Fl (5/8), (SemanticRouter (1/2))\<lparr>historical_scores := map Fl [1, 1/2]\<rparr>)"
  using calculate_dynamic_threshold_mean_of_all
    [of "SemanticRouter (1/2)" "[(''a'', 1), (''base'', 0)]" "[1]"]
  by (simp add: SemanticRouter_def Let_def)

section \<open>Routing: how a query's result is put together\<close>

lemma route_query_with_scores_error:
  "route_query_with_scores g st q = Inl e \<Longrightarrow> calculate_similarities g st q = Inl e"
  by (auto simp: route_query_with_scores_def py_max_def Let_def
      split: sum.splits if_splits prod.splits list.splits)

lemma route_query_with_scores_unfold:
  assumes "calculate_similarities g st q = Inr sims"
  shows "route_query_with_scores g st q =
     (if sims = [] then Inr ((default_adapter_name, [(default_adapter_name, Fl 0)]), st)
      else Inr ((if fl_lt (snd (max_loop (hd sims) (tl sims))) (fst (calculate_dynamic_threshold st sims))
                 then default_adapter_name else fst (max_loop (hd sims) (tl sims)),
                 dict_set default_adapter_name (Fl 0) sims),
                snd (calculate_dynamic_threshold st sims)))"
  using assms
  by (cases sims)
     (simp_all add: route_query_with_scores_def py_max_def Let_def split: prod.splits)

section \<open>The bound on the history\<close>

lemma apply_op_length:
  assumes "length (historical_scores st) \<le> 10"
  shows "length (historical_scores (apply_op g st op)) \<le> 10"
proof (cases op)
  case (Add_route route)
  then show ?thesis using assms
    by (auto simp: add_route_def split: sum.splits if_splits)
next
  case (Route_query q)
  show ?thesis
  proof (cases "calculate_similarities g st q")
    case (Inl e)
    then show ?thesis using assms Route_query
      by (simp add: route_query_with_scores_def)
  next
    case (Inr sims)
    then show ?thesis using assms Route_query calculate_dynamic_threshold_length [OF assms, of sims]
      by (simp add: route_query_with_scores_unfold)
  qed
next
  case (Dynamic_threshold m)
  then show ?thesis using calculate_dynamic_threshold_length [OF assms] by simp
qed

lemma run_ops_length:
  "length (historical_scores st) \<le> 10 \<Longrightarrow> length (historical_scores (run_ops g ops st)) \<le> 10"
  unfolding run_ops_def
  by (induction ops arbitrary: st) (simp_all add: apply_op_length)

text \<open>
  Claim C9: the history of the threshold estimator never holds more than 10 scores.
  After any sequence of operations on a new router (routes added, queries routed, the
  threshold computed on any map) its length is at most 10, and every single operation
  keeps a history of at most 10 scores at most 10 long.
\<close>

theorem history_bounded:
  "length (historical_scores (run_ops g ops (SemanticRouter t))) \<le> 10 \<and>
   (length (historical_scores st) \<le> 10 \<longrightarrow> length (historical_scores (apply_op g st op)) \<le> 10)"
  using run_ops_length [of "SemanticRouter t" g ops] apply_op_length [of st g op]
  by (simp add: SemanticRouter_def)

theorem history_bounded_witness:
  "length (historical_scores (run_ops demo_embedding
      [Add_route \<lparr>adapter_name = ''a'', training_utterances = [''x'']\<rparr>, Route_query ''x'', Route_query ''y'']
      (SemanticRouter (1/2)))) \<le> 10 \<and>
   length (historical_scores (apply_op demo_embedding (SemanticRouter (1/2)) (Route_query ''x''))) \<le> 10"
  using history_bounded [of demo_embedding
      "[Add_route \<lparr>adapter_name = ''a'', training_utterances = [''x'']\<rparr>, Route_query ''x'', Route_query ''y'']"
      "1/2" "SemanticRouter (1/2)" "Route_query ''x''"]
  by (simp add: SemanticRouter_def)

section \<open>Evaluating the examples\<close>

lemmas demo_defs = demo_embedding_def demo_chat_def demo_system_def SemanticRouter_def

lemmas route_defs = route_query_with_scores_def calculate_similarities_def
  calculate_cosine_similarity_def np_dot_def np_mean_def calculate_dynamic_threshold_def
  py_max_def default_adapter_name_def score_window_def Let_def

lemmas system_defs = generate_response_def begin_response_def log_routing_decision_def
  set_active_adapter_def disable_all_adapters_def AdapterManager_attributes_def

section \<open>Registering a route without utterances\<close>

text \<open>
  Claim C6, as the spec states it, has the registration of a route without utterances
  fail with an InvalidRoute error. In the code \<open>AdapterRoute\<close> accepts the empty list
  and \<open>add_route\<close> returns normally: the guard \<open>if route.training_utterances:\<close> skips
  the route.
\<close>

theorem add_route_empty_utterances_succeeds:
  "add_route demo_embedding \<lparr>adapter_name = ''a'', training_utterances = []\<rparr> (SemanticRouter (1/2))
     = Inr (SemanticRouter (1/2))"
  by (simp add: add_route_def)

text \<open>
  Claim C6, amended: registering a route whose list of utterances is empty raises no
  error and leaves the router, its registry included, unchanged: the route is ignored.
\<close>

theorem add_route_ignores_empty_route:
  "training_utterances route = [] \<Longrightarrow> add_route g route st = Inr st"
  by (simp add: add_route_def)

theorem add_route_ignores_empty_route_witness:
  "training_utterances \<lparr>adapter_name = ''a'', training_utterances = []\<rparr> = [] \<and>
   add_route demo_embedding \<lparr>adapter_name = ''a'', training_utterances = []\<rparr>
     ((SemanticRouter (1/2))\<lparr>route_embeddings := [(''b'', [[1, 0]])]\<rparr>)
     = Inr ((SemanticRouter (1/2))\<lparr>route_embeddings := [(''b'', [[1, 0]])]\<rparr>)"
  using add_route_ignores_empty_route
    [of "\<lparr>adapter_name = ''a'', training_utterances = []\<rparr>" demo_embedding
      "(SemanticRouter (1/2))\<lparr>route_embeddings := [(''b'', [[1, 0]])]\<rparr>"]
  by simp

section \<open>A failing embedding model\<close>

text \<open>
  Claim C5, as the spec states it, has the router fall back to \<open>"base"\<close> when the
  embedding of the query fails. In the code nothing catches the exception before the
  endpoint does: routing the query raises, and \<open>/generate\<close> answers HTTP 500.
\<close>

theorem embedding_error_fails_request:
  "route_query_with_scores demo_embedding
      ((SemanticRouter (1/2))\<lparr>route_embeddings := [(''a'', [[1, 0]])]\<rparr>) ''fail''
     = Inl EmbeddingError \<and>
   fst (generate demo_embedding demo_chat (demo_system False [(''a'', [[1, 0]])])
          \<lparr>messages = [(''user'', ''fail'')], stream = False\<rparr>) = HTTPException 500"
  by (simp add: demo_defs route_defs system_defs generate_def last_user_content_def)

text \<open>
  Claim C5, amended: when the embedding of the query raises, the error propagates:
  \<open>route_query_with_scores\<close> raises it, \<open>generate_response\<close> raises it before any
  adapter is selected and leaves the system unchanged, and the endpoint \<open>/generate\<close>
  answers HTTP 500 for a complete response, or a stream of the one chunk that reports
  the error.
\<close>

theorem embedding_error_propagates:
  assumes "g q = Inl e"
  shows "route_query_with_scores g st q = Inl e \<and>
         generate_response g chat s q msgs b = (Inl e, s) \<and>
         (last_user_content (messages request) = q \<longrightarrow>
            generate g chat s request =
              (if stream request then EventSourceResponse [(''Error'', model_label s)]
               else HTTPException 500, s))"
proof -
  have r: "route_query_with_scores g st q = Inl e" for st
    using assms by (simp add: route_query_with_scores_def calculate_similarities_def)
  have gr: "generate_response g chat s q msgs b = (Inl e, s)" for msgs b
    by (simp add: generate_response_def begin_response_def r)
  show ?thesis using r gr
    by (auto simp: generate_def generate_stream_def Let_def)
qed

theorem embedding_error_propagates_witness:
  "demo_embedding ''fail'' = Inl EmbeddingError \<and>
   route_query_with_scores demo_embedding (SemanticRouter (1/2)) ''fail'' = Inl EmbeddingError \<and>
   generate_response demo_embedding demo_chat (demo_system True []) ''fail'' [(''user'', ''fail'')] True
     = (Inl EmbeddingError, demo_system True []) \<and>
   generate demo_embedding demo_chat (demo_system True []) \<lparr>messages = [(''user'', ''fail'')], stream = True\<rparr>
     = (EventSourceResponse [(''Error'', ''base'')], demo_system True [])"
  using embedding_error_propagates [of demo_embedding "''fail''" EmbeddingError "SemanticRouter (1/2)"
      demo_chat "demo_system True []" "[(''user'', ''fail'')]" True
      "\<lparr>messages = [(''user'', ''fail'')], stream = True\<rparr>"]
  by (simp add: demo_embedding_def last_user_content_def model_label_def demo_system_def)

section \<open>The fallback decision in \<open>generate_response\<close>\<close>

text \<open>
  Claim C10: a call of \<open>generate_response\<close> whose routing decision is \<open>"base"\<close> raises
  AttributeError and generates nothing, since \<open>AdapterManager\<close> has no attribute
  \<open>disable_all_adapters\<close>; every query that the model can embed does so on a router
  without routes.
\<close>

theorem base_decision_raises_AttributeError:
  "(route_query_with_scores g (router s) q = Inr ((''base'', sims), r') \<longrightarrow>
      fst (generate_response g chat s q msgs b) = Inl AttributeError) \<and>
   (route_embeddings (router s) = [] \<and> g q = Inr v \<longrightarrow>
      fst (generate_response g chat s q msgs b) = Inl AttributeError) \<and>
   ''disable_all_adapters'' \<notin> set AdapterManager_attributes"
proof -
  have a: "''disable_all_adapters'' \<notin> set AdapterManager_attributes"
    by (simp add: AdapterManager_attributes_def)
  have b: "fst (generate_response g chat s q msgs b) = Inl AttributeError"
    if "route_query_with_scores g (router s) q = Inr ((''base'', sims), r')" for sims r'
    using that a
    by (simp add: generate_response_def begin_response_def disable_all_adapters_def Let_def)
  have c: "route_query_with_scores g (router s) q = Inr ((''base'', [(''base'', Fl 0)]), router s)"
    if "route_embeddings (router s) = []" "g q = Inr v"
    using that
    by (simp add: route_query_with_scores_def calculate_similarities_def default_adapter_name_def)
  show ?thesis using a b c by blast
qed

theorem base_decision_raises_AttributeError_witness:
  "route_query_with_scores demo_embedding (router (demo_system False [])) ''x''
     = Inr ((''base'', [(''base'', Fl 0)]), router (demo_system False [])) \<and>
   fst (generate_response demo_embedding demo_chat (demo_system False []) ''x'' [(''user'', ''x'')] False)
     = Inl AttributeError"
  using base_decision_raises_AttributeError [of demo_embedding "demo_system False []" "''x''"
      "[(''base'', Fl 0)]" "router (demo_system False [])" demo_chat "[(''user'', ''x'')]" False "[1, 0]"]
  by (simp add: demo_defs route_defs)

section \<open>Pushes on the history per request\<close>

text \<open>
  Claim C8 asks for one push on the history per routed query, logging included. With
  \<open>verbose\<close> set, \<open>_log_routing_decision\<close> calls \<open>calculate_dynamic_threshold\<close> again, on
  the map that now holds \<open>"base": 0.0\<close>. For one route \<open>a\<close> with the reference \<open>x\<close> and
  the query \<open>x\<close> the request leaves two scores on a history that was empty: 1, pushed by
  the routing, and 1/2, pushed by the logging. Without \<open>verbose\<close> it leaves the first
  only.
\<close>

theorem logging_pushes_second_score:
  "historical_scores (router (snd (generate_response demo_embedding demo_chat
      (demo_system True [(''a'', [[1, 0]])]) ''x'' [(''user'', ''x'')] False))) = [Fl 1, Fl (1/2)] \<and>
   historical_scores (router (snd (generate_response demo_embedding demo_chat
      (demo_system False [(''a'', [[1, 0]])]) ''x'' [(''user'', ''x'')] False))) = [Fl 1] \<and>
   fst (generate_response demo_embedding demo_chat
      (demo_system True [(''a'', [[1, 0]])]) ''x'' [(''user'', ''x'')] False) = Inr [''ok'']"
  by (simp add: demo_defs route_defs system_defs)

section \<open>Facts on dictionaries, scores and the registry\<close>

lemma dict_set_append: "k \<notin> fst ` set d \<Longrightarrow> dict_set k v d = d @ [(k, v)]"
  by (induction d) auto

lemma dict_set_keys: "fst ` set (dict_set k v d) = insert k (fst ` set d)"
  by (induction d) auto

lemma fl_add_NaN_right [simp]: "fl_add a NaN = NaN"
  by (cases a) simp_all

lemma foldl_fl_add_NaN: "foldl fl_add NaN xs = NaN"
  by (induction xs) simp_all

lemma foldl_fl_add_has_NaN: "NaN \<in> set xs \<Longrightarrow> foldl fl_add a xs = NaN"
  by (induction xs arbitrary: a) (auto simp: foldl_fl_add_NaN)

lemma np_mean_NaN: "NaN \<in> set xs \<Longrightarrow> np_mean xs = NaN"
  by (auto simp: np_mean_def foldl_fl_add_has_NaN)

lemma sum_squares_nonneg: "0 \<le> sum_list (map (\<lambda>x::real. x * x) v)"
  by (induction v) auto

lemma sum_squares_zero: "sum_list (map (\<lambda>x::real. x * x) v) = 0 \<Longrightarrow> \<forall>x \<in> set v. x = 0"
  by (induction v) (auto simp: add_nonneg_eq_0_iff sum_squares_nonneg)

lemma linalg_norm_zero: "linalg_norm v = 0 \<Longrightarrow> x \<in> set v \<Longrightarrow> x = 0"
  using sum_squares_zero [of v] by (simp add: linalg_norm_def)

lemma np_dot_zeros: "\<forall>x \<in> set v. x = 0 \<Longrightarrow> np_dot w v = 0"
  unfolding np_dot_def
  by (induction w v rule: list_induct2') auto

lemma np_dot_zeros_left: "\<forall>x \<in> set w. x = 0 \<Longrightarrow> np_dot w v = 0"
  unfolding np_dot_def
  by (induction w v rule: list_induct2') auto

lemma np_dot_zero_norm: "linalg_norm v1 * linalg_norm v2 = 0 \<Longrightarrow> np_dot v1 v2 = 0"
proof -
  assume "linalg_norm v1 * linalg_norm v2 = 0"
  then consider "linalg_norm v1 = 0" | "linalg_norm v2 = 0" by auto
  then show ?thesis
  proof cases
    case 1
    then have "\<forall>x \<in> set v1. x = 0" using linalg_norm_zero by blast
    then show ?thesis by (rule np_dot_zeros_left)
  next
    case 2
    then have "\<forall>x \<in> set v2. x = 0" using linalg_norm_zero by blast
    then show ?thesis by (rule np_dot_zeros)
  qed
qed

lemma cosine_zero_norm:
  "linalg_norm e = 0 \<Longrightarrow> calculate_cosine_similarity q e = Inr s \<Longrightarrow> s = NaN"
  by (auto simp: calculate_cosine_similarity_def Let_def split: if_splits)

lemma utterance_similarities_zero_norm:
  "utterance_similarities q embs = Inr us \<Longrightarrow> e \<in> set embs \<Longrightarrow> linalg_norm e = 0 \<Longrightarrow> NaN \<in> set us"
proof (induction embs arbitrary: us)
  case Nil
  then show ?case by simp
next
  case (Cons a embs)
  then show ?case
    by (auto split: sum.splits dest: cosine_zero_norm)
qed

lemma similarities_loop_ok:
  assumes "distinct (map fst reg)" "list_all (\<lambda>p. snd p \<noteq> []) reg"
    "fst ` set reg \<inter> fst ` set acc = {}" "similarities_loop q reg acc = Inr sims"
  shows "\<exists>scores. sims = acc @ scores \<and>
     list_all2 (\<lambda>p r. fst r = fst p \<and>
        (\<exists>us. utterance_similarities q (snd p) = Inr us \<and> snd r = np_mean us)) reg scores"
  using assms
proof (induction reg arbitrary: acc)
  case Nil
  then show ?case by simp
next
  case (Cons p reg)
  obtain name embs where p: "p = (name, embs)" by (cases p)
  from Cons.prems p have ne: "embs \<noteq> []" by simp
  from Cons.prems p ne obtain us where us: "utterance_similarities q embs = Inr us"
    and loop: "similarities_loop q reg (dict_set name (np_mean us) acc) = Inr sims"
    by (auto split: sum.splits)
  from Cons.prems p have fresh: "name \<notin> fst ` set acc" by auto
  then have ds: "dict_set name (np_mean us) acc = acc @ [(name, np_mean us)]"
    by (rule dict_set_append)
  have disj: "fst ` set reg \<inter> fst ` set (acc @ [(name, np_mean us)]) = {}"
    using Cons.prems p by auto
  from Cons.IH [OF _ _ disj] Cons.prems loop ds
  obtain scores where s: "sims = (acc @ [(name, np_mean us)]) @ scores"
    and l: "list_all2 (\<lambda>p r. fst r = fst p \<and>
        (\<exists>us. utterance_similarities q (snd p) = Inr us \<and> snd r = np_mean us)) reg scores"
    by auto
  show ?case
    by (rule exI [of _ "(name, np_mean us) # scores"]) (use s l us p in simp)
qed

lemma calculate_similarities_ok:
  assumes "registry_ok (route_embeddings st)" "calculate_similarities g st q = Inr sims"
  shows "\<exists>qe. g q = Inr qe \<and>
     list_all2 (\<lambda>p r. fst r = fst p \<and>
        (\<exists>us. utterance_similarities qe (snd p) = Inr us \<and> snd r = np_mean us))
       (route_embeddings st) sims"
proof -
  from assms(2) obtain qe where qe: "g q = Inr qe"
    and loop: "similarities_loop qe (route_embeddings st) [] = Inr sims"
    by (auto simp: calculate_similarities_def split: sum.splits)
  from similarities_loop_ok [of "route_embeddings st" "[]" qe sims] assms(1) loop
  show ?thesis using qe by (auto simp: registry_ok_def)
qed

lemma list_all2_keys:
  "list_all2 (\<lambda>p r. fst r = fst p \<and> Q p r) reg sims \<Longrightarrow> map fst sims = map fst reg"
  by (induction reg sims rule: list_all2_induct) auto

lemma dict_set_distinct: "distinct (map fst d) \<Longrightarrow> distinct (map fst (dict_set k v d))"
proof (induction d)
  case Nil
  then show ?case by simp
next
  case (Cons p d)
  then show ?case using dict_set_keys [of k v d] by (auto simp: image_iff)
qed

lemma dict_set_list_all: "list_all P d \<Longrightarrow> P (k, v) \<Longrightarrow> list_all P (dict_set k v d)"
  by (induction d) auto

lemma batch_generate_embeddings_nonempty:
  "batch_generate_embeddings g ts = Inr embs \<Longrightarrow> ts \<noteq> [] \<Longrightarrow> embs \<noteq> []"
  by (cases ts) (auto split: sum.splits)

lemma add_route_registry_ok:
  "registry_ok (route_embeddings st) \<Longrightarrow> add_route g route st = Inr st' \<Longrightarrow>
   registry_ok (route_embeddings st')"
  by (auto simp: add_route_def registry_ok_def dict_set_distinct dict_set_list_all
      batch_generate_embeddings_nonempty split: if_splits sum.splits)

lemma calculate_dynamic_threshold_registry:
  "route_embeddings (snd (calculate_dynamic_threshold st m)) = route_embeddings st"
  by (simp add: calculate_dynamic_threshold_def Let_def)

lemma apply_op_registry_ok:
  assumes "registry_ok (route_embeddings st)"
  shows "registry_ok (route_embeddings (apply_op g st op))"
proof (cases op)
  case (Add_route route)
  then show ?thesis using assms add_route_registry_ok [OF assms, of g route]
    by (auto split: sum.splits)
next
  case (Route_query q)
  show ?thesis
  proof (cases "calculate_similarities g st q")
    case (Inl e)
    then show ?thesis using assms Route_query by (simp add: route_query_with_scores_def)
  next
    case (Inr sims)
    then show ?thesis using assms Route_query
      by (simp add: route_query_with_scores_unfold calculate_dynamic_threshold_registry)
  qed
next
  case (Dynamic_threshold m)
  then show ?thesis using assms by (simp add: calculate_dynamic_threshold_registry)
qed

lemma run_ops_registry_ok:
  "registry_ok (route_embeddings st) \<Longrightarrow> registry_ok (route_embeddings (run_ops g ops st))"
  unfolding run_ops_def
  by (induction ops arbitrary: st) (simp_all add: apply_op_registry_ok)

lemma new_router_registry_ok: "registry_ok (route_embeddings (run_ops g ops (SemanticRouter t)))"
  by (rule run_ops_registry_ok) (simp add: SemanticRouter_def registry_ok_def)

lemma similarities_loop_keys:
  "similarities_loop q reg acc = Inr sims \<Longrightarrow> fst ` set sims \<subseteq> fst ` set reg \<union> fst ` set acc"
proof (induction reg arbitrary: acc)
  case Nil
  then show ?case by simp
next
  case (Cons p reg)
  obtain name embs where p: "p = (name, embs)" by (cases p)
  show ?case
  proof (cases "embs = []")
    case True
    with Cons p show ?thesis by auto
  next
    case False
    with Cons.prems p obtain us where
      loop: "similarities_loop q reg (dict_set name (np_mean us) acc) = Inr sims"
      by (auto split: sum.splits)
    from Cons.IH [OF loop] show ?thesis using p by (auto simp: dict_set_keys)
  qed
qed

lemma calculate_similarities_keys:
  "calculate_similarities g st q = Inr sims \<Longrightarrow> fst ` set sims \<subseteq> fst ` set (route_embeddings st)"
  using similarities_loop_keys [of _ "route_embeddings st" "[]" sims]
  by (auto simp: calculate_similarities_def split: sum.splits)

lemma max_loop_split:
  "\<exists>pre n' s' post. (n, s) # rs = pre @ (n', s') # post \<and>
     max_loop (n, Fl s) (map (apsnd Fl) rs) = (n', Fl s') \<and>
     (\<forall>p \<in> set pre. snd p < s') \<and> (\<forall>p \<in> set post. snd p \<le> s')"
proof (induction rs arbitrary: n s)
  case Nil
  show ?case by (rule exI [of _ "[]"]) simp
next
  case (Cons r rs)
  obtain m t where r: "r = (m, t)" by (cases r)
  show ?case
  proof (cases "s < t")
    case True
    from Cons [of m t] obtain pre n' s' post where
      sp: "(m, t) # rs = pre @ (n', s') # post" and
      mx: "max_loop (m, Fl t) (map (apsnd Fl) rs) = (n', Fl s')" and
      lo: "\<forall>p \<in> set pre. snd p < s'" and hi: "\<forall>p \<in> set post. snd p \<le> s'"
      by blast
    have "t \<le> s'"
    proof (cases pre)
      case Nil
      with sp show ?thesis by simp
    next
      case (Cons a pre')
      with sp lo show ?thesis by auto
    qed
    with True have "s < s'" by simp
    then have lo': "\<forall>p \<in> set ((n, s) # pre). snd p < s'" using lo by simp
    have sp': "(n, s) # r # rs = ((n, s) # pre) @ (n', s') # post" using sp r by simp
    have mx': "max_loop (n, Fl s) (map (apsnd Fl) (r # rs)) = (n', Fl s')"
      using True mx r by simp
    from sp' mx' lo' hi show ?thesis by blast
  next
    case False
    from Cons [of n s] obtain pre n' s' post where
      sp: "(n, s) # rs = pre @ (n', s') # post" and
      mx: "max_loop (n, Fl s) (map (apsnd Fl) rs) = (n', Fl s')" and
      lo: "\<forall>p \<in> set pre. snd p < s'" and hi: "\<forall>p \<in> set post. snd p \<le> s'"
      by blast
    have mx': "max_loop (n, Fl s) (map (apsnd Fl) (r # rs)) = (n', Fl s')"
      using False mx r by simp
    show ?thesis
    proof (cases pre)
      case Nil
      with sp have e: "n' = n" "s' = s" "post = rs" by simp_all
      have sp': "(n, s) # r # rs = [] @ (n', s') # (r # rs)" using e by simp
      have hi': "\<forall>p \<in> set (r # rs). snd p \<le> s'" using hi e False r by auto
      from sp' mx' hi' show ?thesis by (metis empty_iff list.set(1))
    next
      case (Cons a pre')
      with sp have a: "a = (n, s)" and rs: "rs = pre' @ (n', s') # post" by simp_all
      from lo Cons a have "s < s'" by simp
      with False r have "t < s'" by simp
      then have lo': "\<forall>p \<in> set ((n, s) # r # pre'). snd p < s'" using lo Cons a r by simp
      have sp': "(n, s) # r # rs = ((n, s) # r # pre') @ (n', s') # post" using rs by simp
      from sp' mx' lo' hi show ?thesis by blast
    qed
  qed
qed

lemma route_query_with_scores_first_max:
  assumes "calculate_similarities g st q = Inr (map (apsnd Fl) rs)" "rs \<noteq> []"
  shows "\<exists>pre n s post. rs = pre @ (n, s) # post \<and>
     (\<forall>p \<in> set pre. snd p < s) \<and> (\<forall>p \<in> set post. snd p \<le> s) \<and>
     route_query_with_scores g st q =
       Inr ((if fl_lt (Fl s) (fst (calculate_dynamic_threshold st (map (apsnd Fl) rs)))
             then ''base'' else n,
             dict_set ''base'' (Fl 0) (map (apsnd Fl) rs)),
            snd (calculate_dynamic_threshold st (map (apsnd Fl) rs)))"
proof -
  from assms(2) obtain r rs' where rs: "rs = r # rs'" by (cases rs) auto
  obtain n0 s0 where r: "r = (n0, s0)" by (cases r)
  from max_loop_split [of n0 s0 rs'] obtain pre n s post where
    sp: "(n0, s0) # rs' = pre @ (n, s) # post" and
    mx: "max_loop (n0, Fl s0) (map (apsnd Fl) rs') = (n, Fl s)" and
    lo: "\<forall>p \<in> set pre. snd p < s" and hi: "\<forall>p \<in> set post. snd p \<le> s"
    by blast
  have "route_query_with_scores g st q =
       Inr ((if fl_lt (Fl s) (fst (calculate_dynamic_threshold st (map (apsnd Fl) rs)))
             then ''base'' else n,
             dict_set ''base'' (Fl 0) (map (apsnd Fl) rs)),
            snd (calculate_dynamic_threshold st (map (apsnd Fl) rs)))"
    using route_query_with_scores_unfold [OF assms(1)] mx rs r
    by (simp add: default_adapter_name_def)
  with sp lo hi rs r show ?thesis by blast
qed

section \<open>References of zero norm\<close>

text \<open>
  Claim C4, as the spec states it, has a reference embedding of zero norm left out of
  its adapter's mean, and an adapter whose references all have zero norm left out of
  the similarity map. The code divides by the product of the norms without a guard.
  A route \<open>a\<close> whose only reference is the zero vector gets the entry \<open>a: NaN\<close>, and a
  route \<open>b\<close> with the references \<open>[1, 0]\<close> and \<open>[0, 0]\<close> scores NaN against the query
  \<open>[1, 0]\<close>, not the 1 of the reference that has a norm.
\<close>

theorem zero_norm_reference_gives_NaN_entry:
  "linalg_norm [0, 0] = 0 \<and>
   add_route demo_embedding \<lparr>adapter_name = ''a'', training_utterances = [''zero'']\<rparr> (SemanticRouter (1/2))
     = Inr ((SemanticRouter (1/2))\<lparr>route_embeddings := [(''a'', [[0, 0]])]\<rparr>) \<and>
   calculate_similarities demo_embedding
      ((SemanticRouter (1/2))\<lparr>route_embeddings := [(''a'', [[0, 0]])]\<rparr>) ''x''
     = Inr [(''a'', NaN)] \<and>
   calculate_similarities demo_embedding
      ((SemanticRouter (1/2))\<lparr>route_embeddings := [(''b'', [[1, 0], [0, 0]])]\<rparr>) ''x''
     = Inr [(''b'', NaN)]"
  by (simp add: demo_defs route_defs add_route_def)

text \<open>
  Claim C4, amended: no reference embedding is excluded. Every registered adapter has
  its entry in the similarity map, in the order of the registry, and an adapter with a
  reference embedding of zero norm has the score NaN, the mean over all its references
  of which one is the NaN of 0/0.
\<close>

theorem zero_norm_reference_not_excluded:
  assumes "registry_ok (route_embeddings st)" "calculate_similarities g st q = Inr sims"
  shows "map fst sims = map fst (route_embeddings st) \<and>
         (\<forall>name embs e. (name, embs) \<in> set (route_embeddings st) \<and> e \<in> set embs \<and> linalg_norm e = 0
            \<longrightarrow> (name, NaN) \<in> set sims)"
proof -
  from calculate_similarities_ok [OF assms] obtain qe where
    l: "list_all2 (\<lambda>p r. fst r = fst p \<and>
        (\<exists>us. utterance_similarities qe (snd p) = Inr us \<and> snd r = np_mean us))
       (route_embeddings st) sims" by blast
  have keys: "map fst sims = map fst (route_embeddings st)"
    using l by (rule list_all2_keys)
  have nan: "(name, NaN) \<in> set sims"
    if m: "(name, embs) \<in> set (route_embeddings st)" and e: "e \<in> set embs" and z: "linalg_norm e = 0"
    for name embs e
  proof -
    from m obtain i where i: "i < length (route_embeddings st)" "route_embeddings st ! i = (name, embs)"
      by (auto simp: in_set_conv_nth)
    from l i have len: "i < length sims" by (simp add: list_all2_lengthD)
    from list_all2_nthD [OF l i(1)] i(2)
    obtain us where f: "fst (sims ! i) = name" and us: "utterance_similarities qe embs = Inr us"
      and s: "snd (sims ! i) = np_mean us" by auto
    from utterance_similarities_zero_norm [OF us e z] have "np_mean us = NaN"
      by (rule np_mean_NaN)
    with f s have "sims ! i = (name, NaN)" by (cases "sims ! i") simp
    with len show ?thesis by (metis nth_mem)
  qed
  from keys nan show ?thesis by blast
qed

theorem zero_norm_reference_not_excluded_witness:
  "registry_ok [(''b'', [[1, 0], [0, 0]])] \<and>
   calculate_similarities demo_embedding
      ((SemanticRouter (1/2))\<lparr>route_embeddings := [(''b'', [[1, 0], [0, 0]])]\<rparr>) ''x''
     = Inr [(''b'', NaN)] \<and>
   map fst [(''b'', NaN)] = map fst [(''b'', [[1, 0], [0, 0 :: real]])] \<and>
   linalg_norm [0, 0] = 0 \<and> (''b'', NaN) \<in> set [(''b'', NaN)]"
  using zero_norm_reference_not_excluded
    [of "(SemanticRouter (1/2))\<lparr>route_embeddings := [(''b'', [[1, 0], [0, 0]])]\<rparr>"
        demo_embedding "''x''" "[(''b'', NaN)]"]
  by (simp add: demo_defs route_defs registry_ok_def)

section \<open>The routing decision\<close>

text \<open>
  Claim C2, as the spec states it, leaves the entry of the fallback name out of the
  choice. The code leaves nothing out: the best entry is taken over the whole map, and
  the entry \<open>"base": 0.0\<close> is written after that. With a route registered under the name
  \<open>base\<close> that scores 1 and a route \<open>a\<close> that scores 3/4, the threshold is 11/16; the
  best score other than the fallback's, 3/4, is not below it, and the decision is
  \<open>base\<close> all the same.
\<close>

theorem route_named_base_wins:
  "calculate_similarities demo_embedding
      ((SemanticRouter (1/2))\<lparr>route_embeddings :=
          [(''base'', [[1, 0]]), (''a'', [[1, 0], [1, 0], [1, 0], [0, 1]])]\<rparr>) ''x''
     = Inr [(''base'', Fl 1), (''a'', Fl (3/4))] \<and>
   fst (calculate_dynamic_threshold
      ((SemanticRouter (1/2))\<lparr>route_embeddings :=
          [(''base'', [[1, 0]]), (''a'', [[1, 0], [1, 0], [1, 0], [0, 1]])]\<rparr>)
      [(''base'', Fl 1), (''a'', Fl (3/4))]) = Fl (11/16) \<and>
   \<not> fl_lt (Fl (3/4)) (Fl (11/16)) \<and>
   route_query_with_scores demo_embedding
      ((SemanticRouter (1/2))\<lparr>route_embeddings :=
          [(''base'', [[1, 0]]), (''a'', [[1, 0], [1, 0], [1, 0], [0, 1]])]\<rparr>) ''x''
     = Inr ((''base'', [(''base'', Fl 0), (''a'', Fl (3/4))]),
            (SemanticRouter (1/2))\<lparr>route_embeddings :=
                [(''base'', [[1, 0]]), (''a'', [[1, 0], [1, 0], [1, 0], [0, 1]])],
              historical_scores := [Fl (7/8)]\<rparr>)"
  by (simp add: demo_defs route_defs)

text \<open>
  Claim C2, amended: when no route is registered under the name \<open>base\<close> and the
  scores are numbers, the decision is \<open>base\<close> exactly when the similarity map is empty
  or its highest score is strictly less than the dynamic threshold; otherwise it is the
  name of an adapter that has the highest score.
\<close>

theorem fallback_exactly_below_threshold:
  assumes "calculate_similarities g st q = Inr (map (apsnd Fl) rs)"
    "''base'' \<notin> fst ` set (route_embeddings st)"
  shows "\<exists>name out st'. route_query_with_scores g st q = Inr ((name, out), st') \<and>
     ((name = ''base'') =
        (rs = [] \<or> fl_lt (Fl (Max (snd ` set rs)))
                      (fst (calculate_dynamic_threshold st (map (apsnd Fl) rs))))) \<and>
     (name \<noteq> ''base'' \<longrightarrow> (name, Max (snd ` set rs)) \<in> set rs)"
proof (cases "rs = []")
  case True
  then show ?thesis using route_query_with_scores_unfold [OF assms(1)]
    by (simp add: default_adapter_name_def)
next
  case False
  from route_query_with_scores_first_max [OF assms(1) False] obtain pre n s post where
    sp: "rs = pre @ (n, s) # post" and
    lo: "\<forall>p \<in> set pre. snd p < s" and hi: "\<forall>p \<in> set post. snd p \<le> s" and
    r: "route_query_with_scores g st q =
       Inr ((if fl_lt (Fl s) (fst (calculate_dynamic_threshold st (map (apsnd Fl) rs)))
             then ''base'' else n,
             dict_set ''base'' (Fl 0) (map (apsnd Fl) rs)),
            snd (calculate_dynamic_threshold st (map (apsnd Fl) rs)))"
    by blast
  have mem: "(n, s) \<in> set rs" using sp by simp
  have "Max (snd ` set rs) = s"
  proof (rule Max_eqI)
    show "finite (snd ` set rs)" by simp
    show "s \<in> snd ` set rs" using mem by force
    fix y assume "y \<in> snd ` set rs"
    then show "y \<le> s" using sp lo hi by (auto simp: less_imp_le)
  qed
  then have mx: "Max (snd ` set rs) = s" .
  have "(n, Fl s) \<in> set (map (apsnd Fl) rs)" using mem by force
  then have "n \<in> fst ` set (map (apsnd Fl) rs)" by force
  with calculate_similarities_keys [OF assms(1)] have "n \<in> fst ` set (route_embeddings st)"
    by blast
  with assms(2) have nb: "n \<noteq> ''base''" by blast
  show ?thesis using r mx nb mem False by auto
qed

theorem fallback_exactly_below_threshold_witness:
  "calculate_similarities demo_embedding
      ((SemanticRouter (1/2))\<lparr>route_embeddings := [(''a'', [[1, 0]])]\<rparr>) ''x''
     = Inr (map (apsnd Fl) [(''a'', 1)]) \<and>
   ''base'' \<notin> fst ` set [(''a'', [[1, 0 :: real]])] \<and>
   route_query_with_scores demo_embedding
      ((SemanticRouter (1/2))\<lparr>route_embeddings := [(''a'', [[1, 0]])]\<rparr>) ''x''
     = Inr ((''a'', [(''a'', Fl 1), (''base'', Fl 0)]),
            (SemanticRouter (1/2))\<lparr>route_embeddings := [(''a'', [[1, 0]])], historical_scores := [Fl 1]\<rparr>)"
  using fallback_exactly_below_threshold
    [of demo_embedding "(SemanticRouter (1/2))\<lparr>route_embeddings := [(''a'', [[1, 0]])]\<rparr>"
        "''x''" "[(''a'', 1)]"]
  by (simp add: demo_defs route_defs)

section \<open>The order of registration\<close>

lemma dict_set_map_fst:
  "map fst (dict_set k v d) = (if k \<in> set (map fst d) then map fst d else map fst d @ [k])"
  by (induction d) auto

lemma add_route_keys:
  assumes "add_route g r st = Inr st'"
  shows "map fst (route_embeddings st') =
     (if training_utterances r \<noteq> [] \<and> adapter_name r \<notin> set (map fst (route_embeddings st))
      then map fst (route_embeddings st) @ [adapter_name r]
      else map fst (route_embeddings st))"
proof (cases "training_utterances r = []")
  case True
  with assms show ?thesis by (simp add: add_route_def)
next
  case False
  with assms obtain embs where
    "st' = st\<lparr>route_embeddings := dict_set (adapter_name r) embs (route_embeddings st)\<rparr>"
    by (auto simp: add_route_def split: sum.splits)
  with False show ?thesis by (simp add: dict_set_map_fst)
qed

lemma add_routes_snoc:
  "add_routes g (routes @ [r]) st =
     (case add_routes g routes st of
        (Some e, st') \<Rightarrow> (Some e, st')
      | (None, st') \<Rightarrow> (case add_route g r st' of Inl e \<Rightarrow> (Some e, st') | Inr st'' \<Rightarrow> (None, st'')))"
  by (induction routes arbitrary: st) (auto split: sum.splits)

lemma add_routes_registry_ok:
  "registry_ok (route_embeddings st) \<Longrightarrow> add_routes g routes st = (None, st') \<Longrightarrow>
   registry_ok (route_embeddings st')"
  by (induction routes arbitrary: st) (auto split: sum.splits dest: add_route_registry_ok)

lemma first_registration_less:
  "first_registration routes n < length routes \<longleftrightarrow> (\<exists>r \<in> set routes. registers r n)"
  unfolding first_registration_def
  by (induction routes) auto

lemma first_registration_le: "first_registration routes n \<le> length routes"
  unfolding first_registration_def by (rule length_takeWhile_le)

lemma first_registration_snoc:
  "first_registration (routes @ [r]) n =
     (if first_registration routes n < length routes then first_registration routes n
      else if registers r n then length routes else length routes + 1)"
proof (cases "\<exists>x \<in> set routes. registers x n")
  case True
  then have "first_registration routes n < length routes" by (simp add: first_registration_less)
  moreover have "first_registration (routes @ [r]) n = first_registration routes n"
    using True unfolding first_registration_def by (auto simp: takeWhile_append1)
  ultimately show ?thesis by simp
next
  case False
  then have nl: "\<not> first_registration routes n < length routes"
    by (simp add: first_registration_less)
  have "first_registration (routes @ [r]) n = length routes + (if registers r n then 0 else 1)"
    using False unfolding first_registration_def by (simp add: takeWhile_append2)
  with nl show ?thesis by simp
qed

lemma add_routes_order:
  assumes "add_routes g routes (SemanticRouter t) = (None, st)"
  shows "(\<forall>n. n \<in> set (map fst (route_embeddings st)) \<longleftrightarrow> first_registration routes n < length routes) \<and>
         (\<forall>A n B m. map fst (route_embeddings st) = A @ n # B \<and> m \<in> set B \<longrightarrow>
            first_registration routes n < first_registration routes m)"
  using assms
proof (induction routes arbitrary: st rule: rev_induct)
  case Nil
  then show ?case by (auto simp: SemanticRouter_def first_registration_def)
next
  case (snoc r routes)
  from snoc.prems obtain st1 where
    b1: "add_routes g routes (SemanticRouter t) = (None, st1)" and
    b2: "add_route g r st1 = Inr st"
    by (auto simp: add_routes_snoc split: prod.splits option.splits sum.splits)
  let ?K1 = "map fst (route_embeddings st1)"
  let ?K = "map fst (route_embeddings st)"
  from snoc.IH [OF b1] have
    mem: "\<And>n. n \<in> set ?K1 \<longleftrightarrow> first_registration routes n < length routes" and
    ord: "\<And>A n B m. ?K1 = A @ n # B \<Longrightarrow> m \<in> set B \<Longrightarrow>
            first_registration routes n < first_registration routes m"
    by blast+
  have K: "?K = (if training_utterances r \<noteq> [] \<and> adapter_name r \<notin> set ?K1
                 then ?K1 @ [adapter_name r] else ?K1)"
    using add_route_keys [OF b2] .
  show ?case
  proof (cases "training_utterances r \<noteq> [] \<and> adapter_name r \<notin> set ?K1")
    case True
    then have K': "?K = ?K1 @ [adapter_name r]" using K by simp
    have regr: "\<And>n. registers r n \<longleftrightarrow> n = adapter_name r"
      using True by (auto simp: registers_def)
    have new: "\<not> first_registration routes (adapter_name r) < length routes"
      using True mem by blast
    have m': "n \<in> set ?K \<longleftrightarrow> first_registration (routes @ [r]) n < length (routes @ [r])" for n
      using K' mem [of n] regr [of n] new
      by (auto simp: first_registration_snoc)
    have o': "first_registration (routes @ [r]) n < first_registration (routes @ [r]) m"
      if sp: "?K = A @ n # B" and mB: "m \<in> set B" for A n B m
    proof -
      from mB have "B \<noteq> []" by auto
      then obtain B' b where B: "B = B' @ [b]" by (metis rev_exhaust)
      with sp K' have k1: "?K1 = A @ n # B'" and b: "b = adapter_name r" by auto
      from k1 have "n \<in> set ?K1" by simp
      then have fn: "first_registration routes n < length routes" using mem by blast
      show ?thesis
      proof (cases "m \<in> set B'")
        case True
        from ord [OF k1 True] have lt: "first_registration routes n < first_registration routes m" .
        from True k1 have "m \<in> set ?K1" by simp
        then have "first_registration routes m < length routes" using mem by blast
        with fn lt show ?thesis by (simp add: first_registration_snoc)
      next
        case False
        with mB B b have "m = adapter_name r" by auto
        with new regr fn show ?thesis by (simp add: first_registration_snoc)
      qed
    qed
    from m' o' show ?thesis by blast
  next
    case False
    then have K': "?K = ?K1" using K by simp
    have regr: "\<And>n. registers r n \<Longrightarrow> n \<in> set ?K1"
      using False by (auto simp: registers_def)
    have m': "n \<in> set ?K \<longleftrightarrow> first_registration (routes @ [r]) n < length (routes @ [r])" for n
      using K' mem [of n] regr [of n]
      by (auto simp: first_registration_snoc)
    have o': "first_registration (routes @ [r]) n < first_registration (routes @ [r]) m"
      if sp: "?K = A @ n # B" and mB: "m \<in> set B" for A n B m
    proof -
      from sp K' have k1: "?K1 = A @ n # B" by simp
      from k1 have "n \<in> set ?K1" by simp
      then have fn: "first_registration routes n < length routes" using mem by blast
      from k1 mB have "m \<in> set ?K1" by simp
      then have fm: "first_registration routes m < length routes" using mem by blast
      from ord [OF k1 mB] fn fm show ?thesis by (simp add: first_registration_snoc)
    qed
    from m' o' show ?thesis by blast
  qed
qed


lemma split_Max:
  assumes "rs = pre @ (n, s) # post" "\<forall>p \<in> set pre. snd p < s" "\<forall>p \<in> set post. snd p \<le> (s::real)"
  shows "Max (snd ` set rs) = s"
proof (rule Max_eqI)
  show "finite (snd ` set rs)" by simp
  show "s \<in> snd ` set rs" using assms(1) by force
  fix y assume "y \<in> snd ` set rs"
  then show "y \<le> s" using assms by (auto simp: less_imp_le)
qed

text \<open>
  Claim C7, as the spec states it, has the decision return, of the adapters that share
  the maximum score, the one registered earliest. The code does not where a score is
  NaN or where the maximum is below the threshold. With the routes \<open>a\<close> (its reference
  the zero vector), \<open>b\<close> and \<open>c\<close> registered in this order and the query \<open>x\<close>, the
  scores are NaN, 1 and 1: \<open>b\<close> and \<open>c\<close> share the maximum, \<open>max\<close> keeps its first item
  because no comparison with a NaN holds, the threshold is NaN too, and the decision
  is \<open>a\<close>. With the routes \<open>a\<close> and \<open>b\<close> that both score 1/2 and the base threshold
  9/10, the dynamic threshold is 7/10 and the decision is \<open>base\<close>.
\<close>

theorem tie_lost_to_NaN_or_threshold:
  "add_routes demo_embedding
      [\<lparr>adapter_name = ''a'', training_utterances = [''zero'']\<rparr>,
       \<lparr>adapter_name = ''b'', training_utterances = [''x'']\<rparr>,
       \<lparr>adapter_name = ''c'', training_utterances = [''x'']\<rparr>] (SemanticRouter (1/2))
     = (None, (SemanticRouter (1/2))\<lparr>route_embeddings :=
          [(''a'', [[0, 0]]), (''b'', [[1, 0]]), (''c'', [[1, 0]])]\<rparr>) \<and>
   route_query_with_scores demo_embedding
      ((SemanticRouter (1/2))\<lparr>route_embeddings :=
          [(''a'', [[0, 0]]), (''b'', [[1, 0]]), (''c'', [[1, 0]])]\<rparr>) ''x''
     = Inr ((''a'', [(''a'', NaN), (''b'', Fl 1), (''c'', Fl 1), (''base'', Fl 0)]),
            (SemanticRouter (1/2))\<lparr>route_embeddings :=
                [(''a'', [[0, 0]]), (''b'', [[1, 0]]), (''c'', [[1, 0]])],
              historical_scores := [NaN]\<rparr>) \<and>
   add_routes demo_embedding
      [\<lparr>adapter_name = ''a'', training_utterances = [''x'', ''y'']\<rparr>,
       \<lparr>adapter_name = ''b'', training_utterances = [''x'', ''y'']\<rparr>] (SemanticRouter (9/10))
     = (None, (SemanticRouter (9/10))\<lparr>route_embeddings :=
          [(''a'', [[1, 0], [0, 1]]), (''b'', [[1, 0], [0, 1]])]\<rparr>) \<and>
   route_query_with_scores demo_embedding
      ((SemanticRouter (9/10))\<lparr>route_embeddings :=
          [(''a'', [[1, 0], [0, 1]]), (''b'', [[1, 0], [0, 1]])]\<rparr>) ''x''
     = Inr ((''base'', [(''a'', Fl (1/2)), (''b'', Fl (1/2)), (''base'', Fl 0)]),
            (SemanticRouter (9/10))\<lparr>route_embeddings :=
                [(''a'', [[1, 0], [0, 1]]), (''b'', [[1, 0], [0, 1]])],
              historical_scores := [Fl (1/2)]\<rparr>)"
  by (simp add: demo_defs route_defs add_route_def)

text \<open>
  Claim C7, amended: on a router whose routes were registered by \<open>add_routes\<close>, for a
  query whose scores are all numbers and whose maximum score is not below the dynamic
  threshold, the decision is an adapter that has the maximum score, and every other
  adapter with that score was first registered later: its first registering route
  stands later in the list given to \<open>add_routes\<close>. The history \<open>h\<close> of the router is
  any, so the router may have routed queries before.
\<close>

theorem tie_goes_to_earliest_registered:
  assumes built: "add_routes g routes (SemanticRouter t) = (None, st)"
    and sims: "calculate_similarities g (st\<lparr>historical_scores := h\<rparr>) q = Inr (map (apsnd Fl) rs)"
    and ne: "rs \<noteq> []"
    and above: "\<not> fl_lt (Fl (Max (snd ` set rs)))
        (fst (calculate_dynamic_threshold (st\<lparr>historical_scores := h\<rparr>) (map (apsnd Fl) rs)))"
  shows "\<exists>n out st'.
     route_query_with_scores g (st\<lparr>historical_scores := h\<rparr>) q = Inr ((n, out), st') \<and>
     (n, Max (snd ` set rs)) \<in> set rs \<and>
     (\<forall>m. (m, Max (snd ` set rs)) \<in> set rs \<and> m \<noteq> n \<longrightarrow>
        first_registration routes n < first_registration routes m)"
proof -
  let ?st = "st\<lparr>historical_scores := h\<rparr>"
  have "registry_ok (route_embeddings (SemanticRouter t))"
    by (simp add: SemanticRouter_def registry_ok_def)
  from add_routes_registry_ok [OF this built]
  have ok: "registry_ok (route_embeddings ?st)" by simp
  from calculate_similarities_ok [OF ok sims]
  have "map fst (map (apsnd Fl) rs) = map fst (route_embeddings ?st)"
    by (auto dest: list_all2_keys)
  then have keys: "map fst rs = map fst (route_embeddings st)" by (simp add: comp_def)
  from route_query_with_scores_first_max [OF sims ne] obtain pre n s post where
    sp: "rs = pre @ (n, s) # post" and
    lo: "\<forall>p \<in> set pre. snd p < s" and hi: "\<forall>p \<in> set post. snd p \<le> s" and
    r: "route_query_with_scores g ?st q =
       Inr ((if fl_lt (Fl s) (fst (calculate_dynamic_threshold ?st (map (apsnd Fl) rs)))
             then ''base'' else n,
             dict_set ''base'' (Fl 0) (map (apsnd Fl) rs)),
            snd (calculate_dynamic_threshold ?st (map (apsnd Fl) rs)))"
    by blast
  have mx: "Max (snd ` set rs) = s" using sp lo hi by (rule split_Max)
  from r above mx have res: "route_query_with_scores g ?st q =
       Inr ((n, dict_set ''base'' (Fl 0) (map (apsnd Fl) rs)),
            snd (calculate_dynamic_threshold ?st (map (apsnd Fl) rs)))"
    by simp
  have mem: "(n, s) \<in> set rs" using sp by simp
  have K: "map fst (route_embeddings st) = map fst pre @ n # map fst post"
    using keys sp by simp
  have first: "first_registration routes n < first_registration routes m"
    if m: "(m, s) \<in> set rs" and d: "m \<noteq> n" for m
  proof -
    from m sp lo d have "(m, s) \<in> set post" by auto
    then have "m \<in> set (map fst post)" by force
    with add_routes_order [OF built] K show ?thesis by blast
  qed
  from res mem first mx show ?thesis by blast
qed

theorem tie_goes_to_earliest_registered_witness:
  "add_routes demo_embedding
      [\<lparr>adapter_name = ''a'', training_utterances = [''x'']\<rparr>,
       \<lparr>adapter_name = ''b'', training_utterances = [''x'']\<rparr>] (SemanticRouter (1/2))
     = (None, (SemanticRouter (1/2))\<lparr>route_embeddings := [(''a'', [[1, 0]]), (''b'', [[1, 0]])]\<rparr>) \<and>
   calculate_similarities demo_embedding
      ((SemanticRouter (1/2))\<lparr>route_embeddings := [(''a'', [[1, 0]]), (''b'', [[1, 0]])]\<rparr>) ''x''
     = Inr (map (apsnd Fl) [(''a'', 1), (''b'', 1)]) \<and>
   route_query_with_scores demo_embedding
      ((SemanticRouter (1/2))\<lparr>route_embeddings := [(''a'', [[1, 0]]), (''b'', [[1, 0]])]\<rparr>) ''x''
     = Inr ((''a'', [(''a'', Fl 1), (''b'', Fl 1), (''base'', Fl 0)]),
            (SemanticRouter (1/2))\<lparr>route_embeddings := [(''a'', [[1, 0]]), (''b'', [[1, 0]])],
              historical_scores := [Fl 1]\<rparr>) \<and>
   first_registration
      [\<lparr>adapter_name = ''a'', training_utterances = [''x'']\<rparr>,
       \<lparr>adapter_name = ''b'', training_utterances = [''x'']\<rparr>] ''a''
     < first_registration
      [\<lparr>adapter_name = ''a'', training_utterances = [''x'']\<rparr>,
       \<lparr>adapter_name = ''b'', training_utterances = [''x'']\<rparr>] ''b''"
  using tie_goes_to_earliest_registered
    [of demo_embedding
      "[\<lparr>adapter_name = ''a'', training_utterances = [''x'']\<rparr>,
        \<lparr>adapter_name = ''b'', training_utterances = [''x'']\<rparr>]" "1/2"
      "(SemanticRouter (1/2))\<lparr>route_embeddings := [(''a'', [[1, 0]]), (''b'', [[1, 0]])]\<rparr>"
      "[]" "''x''" "[(''a'', 1), (''b'', 1)]"]
  by (simp add: demo_defs route_defs add_route_def first_registration_def registers_def)

section \<open>Requests in flight together: no gate\<close>

lemma begin_response_success:
  assumes "fst (begin_response g s q) = Inr name"
  shows "name \<noteq> ''base'' \<and> name \<in> set (loaded_adapters s) \<and>
         active_adapter (snd (begin_response g s q)) = Some name \<and>
         current_adapter (snd (begin_response g s q)) = Some name"
proof (cases "route_query_with_scores g (router s) q")
  case (Inl e)
  with assms show ?thesis by (simp add: begin_response_def)
next
  case (Inr res)
  obtain n sims r' where res: "res = ((n, sims), r')" by (cases res) auto
  show ?thesis
  proof (cases "n = ''base''")
    case True
    with assms Inr res show ?thesis
      by (simp add: begin_response_def Let_def disable_all_adapters_def AdapterManager_attributes_def)
  next
    case False
    with assms Inr res show ?thesis
      by (auto simp: begin_response_def Let_def set_active_adapter_def log_routing_decision_def
          split: if_splits)
  qed
qed

text \<open>
  Claim C1, as the spec states it, has the activation, the generation and the release
  of a request form one serialized section, so that no two requests hold the backend
  under different adapters at once. The code has no gate. Two streamed requests, for
  the queries \<open>x\<close> (routed to \<open>a\<close>) and \<open>y\<close> (routed to \<open>b\<close>): the first starts, the second
  starts while the first is generating, and then both are generating, one for \<open>a\<close> and
  one for \<open>b\<close>; the next chunk of the first request is produced under \<open>b\<close>, and the
  shared field \<open>current_adapter\<close> says \<open>b\<close>.
\<close>

theorem two_adapters_active_at_once:
  "phases (run_schedule demo_embedding [''x'', ''y''] [Start 0, Start 1, Chunk 0]
      (initial_server (demo_system False [(''a'', [[1, 0]]), (''b'', [[0, 1]])]) 2))
     = [Generating ''a'', Generating ''b''] \<and>
   chunk_log (run_schedule demo_embedding [''x'', ''y''] [Start 0, Start 1, Chunk 0]
      (initial_server (demo_system False [(''a'', [[1, 0]]), (''b'', [[0, 1]])]) 2))
     = [(0, Some ''b'')] \<and>
   current_adapter (sys (run_schedule demo_embedding [''x'', ''y''] [Start 0, Start 1, Chunk 0]
      (initial_server (demo_system False [(''a'', [[1, 0]]), (''b'', [[0, 1]])]) 2)))
     = Some ''b''"
  by (simp add: run_schedule_def initial_server_def demo_defs route_defs system_defs
      numeral_2_eq_2)

text \<open>
  Claim C1, amended: streamed requests are not serialized. The routing and activation
  of a pending request is one step that is taken whatever the other requests are doing: it
  makes the request generate for its adapter, and sets the one active adapter of the
  backend and the shared field \<open>current_adapter\<close> to that adapter, while the requests
  that were generating go on generating.
\<close>

theorem activation_is_not_gated:
  assumes "i < length (phases st)" "i < length queries" "phases st ! i = Pending"
    "fst (begin_response g (sys st) (queries ! i)) = Inr name"
  shows "phases (step g queries st (Start i)) = (phases st)[i := Generating name] \<and>
         active_adapter (sys (step g queries st (Start i))) = Some name \<and>
         current_adapter (sys (step g queries st (Start i))) = Some name"
proof -
  obtain res s' where b: "begin_response g (sys st) (queries ! i) = (res, s')"
    by (cases "begin_response g (sys st) (queries ! i)")
  with assms(4) have res: "res = Inr name" by simp
  from begin_response_success [OF assms(4)] b
  have "active_adapter s' = Some name" "current_adapter s' = Some name" by simp_all
  then show ?thesis using assms(1-3) b res by simp
qed

theorem activation_is_not_gated_witness:
  "phases (run_schedule demo_embedding [''x'', ''y''] [Start 0]
      (initial_server (demo_system False [(''a'', [[1, 0]]), (''b'', [[0, 1]])]) 2))
     = [Generating ''a'', Pending] \<and>
   fst (begin_response demo_embedding
      (sys (run_schedule demo_embedding [''x'', ''y''] [Start 0]
         (initial_server (demo_system False [(''a'', [[1, 0]]), (''b'', [[0, 1]])]) 2))) ''y'')
     = Inr ''b'' \<and>
   phases (step demo_embedding [''x'', ''y'']
      (run_schedule demo_embedding [''x'', ''y''] [Start 0]
         (initial_server (demo_system False [(''a'', [[1, 0]]), (''b'', [[0, 1]])]) 2)) (Start 1))
     = [Generating ''a'', Generating ''b''] \<and>
   active_adapter (sys (step demo_embedding [''x'', ''y'']
      (run_schedule demo_embedding [''x'', ''y''] [Start 0]
         (initial_server (demo_system False [(''a'', [[1, 0]]), (''b'', [[0, 1]])]) 2)) (Start 1)))
     = Some ''b''"
  using activation_is_not_gated [of 1
      "run_schedule demo_embedding [''x'', ''y''] [Start 0]
         (initial_server (demo_system False [(''a'', [[1, 0]]), (''b'', [[0, 1]])]) 2)"
      "[''x'', ''y'']" demo_embedding "''b''"]
  by (simp add: run_schedule_def initial_server_def demo_defs route_defs system_defs
      numeral_2_eq_2)

end
